theory Spec2Isabelle
  imports Complex_Main "HOL-Library.Sublist" "HOL-Library.Log_Nat"
begin

section \<open>Log analytics of the dashboard component \<open>Logsv2\<close>\<close>

text \<open>
  The development embeds the aggregation and filtering code of
  \<^verbatim>\<open>src/src/Logsv2.jsx\<close>: \<^verbatim>\<open>calculateMetrics\<close>, \<^verbatim>\<open>generateGraphData\<close> and the
  two \<^verbatim>\<open>filteredLogs\<close> callbacks (the basic one and the one with the enhanced search),
  together with the few JavaScript library functions they call.

  A JavaScript number is a double. Counts are \<open>nat\<close> and the integer fields of a log
  record are \<open>int\<close>; a result of \<^verbatim>\<open>+\<close>, \<^verbatim>\<open>-\<close>, \<^verbatim>\<open>*\<close> or \<^verbatim>\<open>/\<close> is the exact
  rational result rounded to a double by the runtime. The value \<^verbatim>\<open>NaN\<close> is \<open>None\<close>, and
  \<^verbatim>\<open>undefined\<close> (an absent property) is \<open>None\<close> as well. What the language leaves to the
  runtime (the date parser, the time zone, the case mapping of strings, the rounding of
  numbers) is a parameter of the model.
\<close>

subsection \<open>Data\<close>

text \<open>A log record, with the fields of the documented backend format (the second
  variant of the file adds the last five).\<close>

record log_entry =
  log_id :: string
  log_timestamp :: string
  log_ip :: string
  log_method :: string
  log_endpoint :: string
  log_status :: int
  log_latency :: int
  log_proxyLatency :: int
  log_success :: bool
  log_userAgent :: string
  log_size :: int
  log_location :: string
  log_applicationName :: string
  log_applicationId :: string
  log_userName :: string
  log_userId :: string
  log_apiName :: string

text \<open>The object returned by \<^verbatim>\<open>calculateMetrics\<close>.\<close>

record metrics =
  totalRequests :: nat
  failedRequests :: nat
  avgLatency :: int
  uniqueIPs :: nat
  successRate :: rat
  peakLatency :: int

subsection \<open>JavaScript library functions\<close>

text \<open>
  What the runtime supplies: to \<^verbatim>\<open>new Date(s).getHours()\<close> the parser of date strings
  (the time value in milliseconds since the epoch, or \<open>None\<close> for an invalid date) and the
  offset of local time from UTC at a time value; to \<^verbatim>\<open>s.toLowerCase()\<close> the case mapping
  of strings; to the arithmetic operators the Number value of a real, that is the double
  the exact result is rounded to.
\<close>

record js_runtime =
  Date_parse :: "string \<Rightarrow> int option"
  LocalTZA :: "int \<Rightarrow> int"
  String_toLowerCase :: "string \<Rightarrow> string"
  Number_value :: "rat \<Rightarrow> rat"

text \<open>\<^verbatim>\<open>HourFromTime(t) = floor(t / msPerHour) modulo HoursPerDay\<close>.\<close>

definition HourFromTime :: "int \<Rightarrow> nat" where
  "HourFromTime t = nat ((t div 3600000) mod 24)"

text \<open>\<^verbatim>\<open>new Date(s).getHours()\<close>; \<open>None\<close> is \<^verbatim>\<open>NaN\<close>, the hour of an invalid date.\<close>

definition getHours :: "js_runtime \<Rightarrow> string \<Rightarrow> nat option" where
  "getHours rt s =
     (case Date_parse rt s of
        None \<Rightarrow> None
      | Some t \<Rightarrow> Some (HourFromTime (t + LocalTZA rt t)))"

definition digit_char :: "nat \<Rightarrow> char" where
  "digit_char d = ''0123456789'' ! d"

fun String_of_nat :: "nat \<Rightarrow> string" where
  "String_of_nat n =
     (if n < 10 then [digit_char n] else String_of_nat (n div 10) @ [digit_char (n mod 10)])"

declare String_of_nat.simps [simp del]

text \<open>\<^verbatim>\<open>String(hour)\<close> for an hour that may be \<^verbatim>\<open>NaN\<close>.\<close>

definition String_of_number :: "nat option \<Rightarrow> string" where
  "String_of_number h = (case h of None \<Rightarrow> ''NaN'' | Some n \<Rightarrow> String_of_nat n)"

text \<open>\<^verbatim>\<open>s.padStart(n, c)\<close> for a one-character filler.\<close>

definition padStart :: "nat \<Rightarrow> char \<Rightarrow> string \<Rightarrow> string" where
  "padStart n c s = replicate (n - length s) c @ s"

text \<open>The template \<^verbatim>\<open>`${String(hour).padStart(2, '0')}:00`\<close>.\<close>

definition timeKeyOf :: "nat option \<Rightarrow> string" where
  "timeKeyOf hour = padStart 2 (CHR ''0'') (String_of_number hour) @ '':00''"

text \<open>\<^verbatim>\<open>s.split(sep)[0]\<close>: the part of \<open>s\<close> before the first separator.\<close>

definition split_first :: "char \<Rightarrow> string \<Rightarrow> string" where
  "split_first sep s = takeWhile (\<lambda>c. c \<noteq> sep) s"

definition digit_val :: "char \<Rightarrow> nat option" where
  "digit_val c =
     map_of [(CHR ''0'', 0), (CHR ''1'', 1), (CHR ''2'', 2), (CHR ''3'', 3), (CHR ''4'', 4),
             (CHR ''5'', 5), (CHR ''6'', 6), (CHR ''7'', 7), (CHR ''8'', 8), (CHR ''9'', 9),
             (CHR ''a'', 10), (CHR ''b'', 11), (CHR ''c'', 12), (CHR ''d'', 13),
             (CHR ''e'', 14), (CHR ''f'', 15),
             (CHR ''A'', 10), (CHR ''B'', 11), (CHR ''C'', 12), (CHR ''D'', 13),
             (CHR ''E'', 14), (CHR ''F'', 15)] c"

definition radix_digit :: "nat \<Rightarrow> char \<Rightarrow> nat option" where
  "radix_digit R c =
     (case digit_val c of None \<Rightarrow> None | Some d \<Rightarrow> if d < R then Some d else None)"

definition is_whitespace :: "char \<Rightarrow> bool" where
  "is_whitespace c = (c \<in> set [CHR '' '', CHR 0x09, CHR 0x0A, CHR 0x0B, CHR 0x0C, CHR 0x0D])"

text \<open>
  \<^verbatim>\<open>parseInt(s)\<close> with no radix: leading white space is skipped (the ASCII part of
  it here), a sign is read, the prefix \<^verbatim>\<open>0x\<close> selects radix 16, and the longest run of
  digits is the value; with no digit the result is \<^verbatim>\<open>NaN\<close>.
\<close>

definition parseInt :: "string \<Rightarrow> int option" where
  "parseInt inputString =
     (let S = dropWhile is_whitespace inputString;
          sign = (if S \<noteq> [] \<and> hd S = CHR ''-'' then - 1 else 1);
          S1 = (if S \<noteq> [] \<and> (hd S = CHR ''+'' \<or> hd S = CHR ''-'') then tl S else S);
          hex = (take 2 S1 = ''0x'' \<or> take 2 S1 = ''0X'');
          R = (if hex then 16 else 10);
          S2 = (if hex then drop 2 S1 else S1);
          Z = takeWhile (\<lambda>c. radix_digit R c \<noteq> None) S2
      in if Z = [] then None
         else Some (sign * int (foldl (\<lambda>acc c. acc * R + (case radix_digit R c of None \<Rightarrow> 0 | Some d \<Rightarrow> d)) 0 Z)))"

text \<open>The comparisons \<^verbatim>\<open><\<close> and \<^verbatim>\<open>>\<close> on numbers: false as soon as a side is \<^verbatim>\<open>NaN\<close>.\<close>

definition js_less :: "int option \<Rightarrow> int option \<Rightarrow> bool" where
  "js_less a b = (case (a, b) of (Some x, Some y) \<Rightarrow> x < y | _ \<Rightarrow> False)"

definition js_greater :: "int option \<Rightarrow> int option \<Rightarrow> bool" where
  "js_greater a b = js_less b a"

text \<open>
  The case mapping on ASCII text: the 26 capital letters go to their small letters, every
  other character stays. \<^verbatim>\<open>toLowerCase\<close> does this on a string of ASCII characters;
  beyond ASCII the mapping is the runtime's (it is not character by character there).
\<close>

definition letter_pairs :: "(char \<times> char) list" where
  "letter_pairs = zip ''ABCDEFGHIJKLMNOPQRSTUVWXYZ'' ''abcdefghijklmnopqrstuvwxyz''"

definition lower_char :: "char \<Rightarrow> char" where
  "lower_char c = (case map_of letter_pairs c of None \<Rightarrow> c | Some d \<Rightarrow> d)"

definition ascii_toLowerCase :: "string \<Rightarrow> string" where
  "ascii_toLowerCase s = map lower_char s"



text \<open>
  The rounding of numbers. A double is \<open>m / 2 ^ j\<close> or \<open>m * 2 ^ j\<close> with \<open>\<bar>m\<bar> \<le> 2 ^ 53\<close>
  in a bounded range of exponents; the Number value of a real is a double nearest to it.
  \<open>rounds_to_nearest\<close> says so for the reals of magnitude up to \<open>2 ^ 53\<close>, against the
  doubles \<open>m / 2 ^ j\<close> with \<open>j \<le> 1074\<close>, which is the part the average needs.
\<close>

definition rounds_to_nearest :: "(rat \<Rightarrow> rat) \<Rightarrow> bool" where
  "rounds_to_nearest fl =
     (\<forall>x m j. \<bar>x\<bar> \<le> 2 ^ 53 \<longrightarrow> \<bar>m\<bar> \<le> 2 ^ 53 \<longrightarrow> j \<le> 1074 \<longrightarrow>
        \<bar>fl x - x\<bar> \<le> \<bar>of_int m / 2 ^ j - x\<bar>)"

text \<open>
  The rounding of IEEE 754 binary64, to nearest with ties to even: \<open>binade x\<close> is the
  exponent \<open>e\<close> with \<open>2 ^ e \<le> \<bar>x\<bar> < 2 ^ (e + 1)\<close>, the doubles around \<open>x\<close> are the multiples
  of \<open>2 ^ (e - 52)\<close>, of \<open>2 ^ - 1074\<close> in the subnormal range. Overflow to infinity is
  left out.
\<close>

definition round_half_even :: "rat \<Rightarrow> int" where
  "round_half_even y =
     (let f = \<lfloor>y\<rfloor>; d = y - of_int f
      in if d < 1 / 2 then f else if 1 / 2 < d then f + 1 else if even f then f else f + 1)"

definition binade :: "rat \<Rightarrow> int" where
  "binade x =
     (case quotient_of \<bar>x\<bar> of
        (p, q) \<Rightarrow> (let d = bitlen p - bitlen q in if 2 powi d \<le> \<bar>x\<bar> then d else d - 1))"

definition binary64_round :: "rat \<Rightarrow> rat" where
  "binary64_round x =
     (if x = 0 then 0
      else (let u = 2 powi (max (binade x) (- 1022) - 52)
            in of_int (round_half_even (x / u)) * u))"

text \<open>\<^verbatim>\<open>s.includes(t)\<close>: \<open>t\<close> occurs in \<open>s\<close> at some position.\<close>

fun String_includes :: "string \<Rightarrow> string \<Rightarrow> bool" where
  "String_includes [] t = (t = [])"
| "String_includes (c # s) t = (prefix t (c # s) \<or> String_includes s t)"

subsection \<open>\<^verbatim>\<open>calculateMetrics\<close>\<close>

text \<open>\<^verbatim>\<open>Math.round\<close>: the integer nearest to the argument, ties towards \<open>+\<infinity>\<close>.\<close>

definition Math_round :: "rat \<Rightarrow> int" where
  "Math_round x = \<lfloor>x + 1 / 2\<rfloor>"

text \<open>\<^verbatim>\<open>Math.max(...xs)\<close>, called on a non-empty array only.\<close>

definition Math_max :: "int list \<Rightarrow> int" where
  "Math_max xs = fold max (tl xs) (hd xs)"

text \<open>
  In \<^verbatim>\<open>calculateMetrics\<close> every sum, difference, quotient and product is a Number
  value; \<^verbatim>\<open>Math.round\<close> and \<^verbatim>\<open>Math.max\<close> are exact on doubles.
\<close>

definition calculateMetrics :: "js_runtime \<Rightarrow> log_entry list \<Rightarrow> metrics" where
  "calculateMetrics rt logs =
     (let totalRequests = length logs;
          failedRequests = length (filter (\<lambda>lg. log_status lg \<ge> 400) logs);
          latencies = map log_latency logs;
          avgLatency = (if length latencies > 0
                        then Math_round (Number_value rt
                               (fold (\<lambda>b a. Number_value rt (a + of_int b)) latencies 0 /
                                 of_nat (length latencies)))
                        else 0);
          uniqueIPs = length (remdups (map log_ip logs));
          successRate = (if totalRequests > 0
                         then Number_value rt
                                (Number_value rt
                                   (Number_value rt (of_nat totalRequests - of_nat failedRequests) /
                                     of_nat totalRequests) * 100)
                         else 0);
          peakLatency = (if length latencies > 0 then Math_max latencies else 0)
      in \<lparr>totalRequests = totalRequests, failedRequests = failedRequests,
          avgLatency = avgLatency, uniqueIPs = uniqueIPs,
          successRate = successRate, peakLatency = peakLatency\<rparr>)"

text \<open>The two summary fields as the specification words them: failures counted by the
  stored flag, and the latency mean left unrounded.\<close>

definition spec_failedRequests :: "log_entry list \<Rightarrow> nat" where
  "spec_failedRequests S = length (filter (\<lambda>r. log_success r = False) S)"

definition spec_averageLatencyMs :: "log_entry list \<Rightarrow> rat" where
  "spec_averageLatencyMs S = of_int (sum_list (map log_latency S)) / of_nat (length S)"

subsection \<open>\<^verbatim>\<open>generateGraphData\<close>\<close>

text \<open>An entry of the object \<^verbatim>\<open>hourlyData\<close>, and an element of the returned array.\<close>

record hour_counts =
  requests :: nat
  errors :: nat
  success :: nat

record graph_point = hour_counts +
  time :: string

text \<open>The body of the \<^verbatim>\<open>forEach\<close>: one record is added to the entry of its hour key.\<close>

definition groupLog :: "js_runtime \<Rightarrow> log_entry \<Rightarrow> (string \<rightharpoonup> hour_counts) \<Rightarrow> (string \<rightharpoonup> hour_counts)" where
  "groupLog rt lg hourlyData =
     (let hour = getHours rt (log_timestamp lg);
          timeKey = timeKeyOf hour;
          entry0 = (case hourlyData timeKey of
                      None \<Rightarrow> \<lparr>requests = 0, errors = 0, success = 0\<rparr>
                    | Some e \<Rightarrow> e);
          entry1 = entry0\<lparr>requests := requests entry0 + 1\<rparr>;
          entry2 = (if log_status lg \<ge> 400
                    then entry1\<lparr>errors := errors entry1 + 1\<rparr>
                    else entry1\<lparr>success := success entry1 + 1\<rparr>)
      in hourlyData(timeKey \<mapsto> entry2))"

text \<open>The element pushed for hour \<open>i\<close>; a missing entry reads as zero.\<close>

definition graphPoint :: "(string \<rightharpoonup> hour_counts) \<Rightarrow> nat \<Rightarrow> graph_point" where
  "graphPoint hourlyData i =
     (let timeKey = timeKeyOf (Some i)
      in \<lparr>requests = (case hourlyData timeKey of None \<Rightarrow> 0 | Some e \<Rightarrow> requests e),
          errors = (case hourlyData timeKey of None \<Rightarrow> 0 | Some e \<Rightarrow> errors e),
          success = (case hourlyData timeKey of None \<Rightarrow> 0 | Some e \<Rightarrow> success e),
          time = timeKey\<rparr>)"

definition generateGraphData :: "js_runtime \<Rightarrow> log_entry list \<Rightarrow> graph_point list" where
  "generateGraphData rt logs =
     (let hourlyData = fold (groupLog rt) logs Map.empty
      in map (graphPoint hourlyData) [0..<24])"

text \<open>A runtime for the examples: UTC, a parser that knows the three timestamps, the
  ASCII case mapping and the binary64 rounding.\<close>

definition example_runtime :: js_runtime where
  "example_runtime =
     \<lparr>Date_parse = map_of [(''2024-01-01T10:00:00.000Z'', 1704103200000),
                           (''2024-01-01T10:30:00.000Z'', 1704105000000),
                           (''2024-01-01T11:00:00.000Z'', 1704106800000)],
      LocalTZA = (\<lambda>t. 0),
      String_toLowerCase = ascii_toLowerCase,
      Number_value = binary64_round\<rparr>"

subsection \<open>Example records\<close>

definition mk_log :: "string \<Rightarrow> string \<Rightarrow> string \<Rightarrow> int \<Rightarrow> int \<Rightarrow> bool \<Rightarrow> log_entry" where
  "mk_log ts m ep st lat ok =
     \<lparr>log_id = ''a1b2c3d4e'', log_timestamp = ts, log_ip = ''192.168.1.10'',
      log_method = m, log_endpoint = ep, log_status = st, log_latency = lat,
      log_proxyLatency = 10, log_success = ok,
      log_userAgent = ''Mozilla/5.0 (compatible; API Client)'', log_size = 1000,
      log_location = ''US-West'', log_applicationName = ''Billing'',
      log_applicationId = ''app-1'', log_userName = ''Alice'', log_userId = ''u-1'',
      log_apiName = ''Users API''\<rparr>"

text \<open>The three records of the specification's example scenario.\<close>

definition example_logs :: "log_entry list" where
  "example_logs =
     [mk_log ''2024-01-01T10:00:00.000Z'' ''GET'' ''/api/users'' 200 100 True,
      mk_log ''2024-01-01T10:30:00.000Z'' ''POST'' ''/api/data'' 500 400 False,
      mk_log ''2024-01-01T11:00:00.000Z'' ''GET'' ''/api/search'' 404 50 False]"

text \<open>One record whose stored flag disagrees with its status code.\<close>

definition flagged_logs :: "log_entry list" where
  "flagged_logs = [mk_log ''2024-01-01T10:00:00.000Z'' ''GET'' ''/api/users'' 200 100 False]"

subsection \<open>\<^verbatim>\<open>filteredLogs\<close>\<close>

text \<open>
  The state object \<^verbatim>\<open>filters\<close>. A property is \<open>None\<close> when the object does not have
  it: \<^verbatim>\<open>removeFilter\<close> of the filter bar deletes the property of a chip that is
  closed.
\<close>

record filters =
  flt_search :: "string option"
  flt_method :: "string option"
  flt_status :: "string option"
  flt_timeRange :: "string option"

text \<open>The state \<^verbatim>\<open>selectedTimeRange\<close> is \<^verbatim>\<open>null\<close> (\<open>None\<close>) or a pair of labels.\<close>

record time_range =
  startTime :: string
  endTime :: string

text \<open>Truthiness of \<^verbatim>\<open>filters.search\<close>: a non-empty string.\<close>

definition truthy :: "string option \<Rightarrow> bool" where
  "truthy v = (case v of None \<Rightarrow> False | Some s \<Rightarrow> s \<noteq> [])"

text \<open>
  The callback of \<^verbatim>\<open>logs.filter\<close> is a sequence of blocks, each of which may
  \<^verbatim>\<open>return false\<close>; the last statement is \<^verbatim>\<open>return true\<close>. Each block is one
  predicate here, true when the block does not reject the record.
\<close>

definition searchPasses :: "js_runtime \<Rightarrow> filters \<Rightarrow> log_entry \<Rightarrow> bool" where
  "searchPasses rt filters lg =
     (\<not> (truthy (flt_search filters) \<and>
         \<not> String_includes (String_toLowerCase rt (log_endpoint lg))
             (String_toLowerCase rt (case flt_search filters of None \<Rightarrow> [] | Some s \<Rightarrow> s))))"

text \<open>The search block of the second variant of the file.\<close>

definition searchPasses_enhanced :: "js_runtime \<Rightarrow> filters \<Rightarrow> log_entry \<Rightarrow> bool" where
  "searchPasses_enhanced rt filters lg =
     (if truthy (flt_search filters)
      then (let searchTerm = String_toLowerCase rt
                               (case flt_search filters of None \<Rightarrow> [] | Some s \<Rightarrow> s)
            in \<not> (\<not> String_includes (String_toLowerCase rt (log_endpoint lg)) searchTerm \<and>
                  \<not> String_includes (String_toLowerCase rt (log_applicationName lg)) searchTerm \<and>
                  \<not> String_includes (String_toLowerCase rt (log_userName lg)) searchTerm \<and>
                  \<not> String_includes (String_toLowerCase rt (log_apiName lg)) searchTerm \<and>
                  \<not> String_includes (String_toLowerCase rt (log_ip lg)) searchTerm))
      else True)"

text \<open>\<^verbatim>\<open>filters.method !== 'all' && log.method !== filters.method\<close> rejects.\<close>

definition methodPasses :: "filters \<Rightarrow> log_entry \<Rightarrow> bool" where
  "methodPasses filters lg =
     (\<not> (flt_method filters \<noteq> Some ''all'' \<and> Some (log_method lg) \<noteq> flt_method filters))"

definition statusPasses :: "filters \<Rightarrow> log_entry \<Rightarrow> bool" where
  "statusPasses filters lg =
     (if flt_status filters \<noteq> Some ''all''
      then (if flt_status filters = Some ''success'' \<and> log_status lg \<ge> 400 then False
            else if flt_status filters = Some ''error'' \<and> log_status lg < 400 then False
            else True)
      else True)"

definition timeRangePasses :: "js_runtime \<Rightarrow> time_range option \<Rightarrow> log_entry \<Rightarrow> bool" where
  "timeRangePasses rt selectedTimeRange lg =
     (case selectedTimeRange of
        None \<Rightarrow> True
      | Some r \<Rightarrow>
          (let logHour = getHours rt (log_timestamp lg);
               logTimeKey = timeKeyOf logHour;
               startHour = parseInt (split_first (CHR '':'') (startTime r));
               endHour = parseInt (split_first (CHR '':'') (endTime r));
               currentHour = parseInt (split_first (CHR '':'') logTimeKey)
           in if js_less currentHour startHour \<or> js_greater currentHour endHour
              then False else True))"

definition filterCallback :: "js_runtime \<Rightarrow> filters \<Rightarrow> time_range option \<Rightarrow> log_entry \<Rightarrow> bool" where
  "filterCallback rt filters selectedTimeRange lg =
     (if \<not> searchPasses rt filters lg then False
      else if \<not> methodPasses filters lg then False
      else if \<not> statusPasses filters lg then False
      else if \<not> timeRangePasses rt selectedTimeRange lg then False
      else True)"

definition filterCallback_enhanced :: "js_runtime \<Rightarrow> filters \<Rightarrow> time_range option \<Rightarrow> log_entry \<Rightarrow> bool" where
  "filterCallback_enhanced rt filters selectedTimeRange lg =
     (if \<not> searchPasses_enhanced rt filters lg then False
      else if \<not> methodPasses filters lg then False
      else if \<not> statusPasses filters lg then False
      else if \<not> timeRangePasses rt selectedTimeRange lg then False
      else True)"

definition filteredLogs :: "js_runtime \<Rightarrow> filters \<Rightarrow> time_range option \<Rightarrow> log_entry list \<Rightarrow> log_entry list" where
  "filteredLogs rt filters selectedTimeRange logs =
     filter (filterCallback rt filters selectedTimeRange) logs"

definition filteredLogs_enhanced :: "js_runtime \<Rightarrow> filters \<Rightarrow> time_range option \<Rightarrow> log_entry list \<Rightarrow> log_entry list" where
  "filteredLogs_enhanced rt filters selectedTimeRange logs =
     filter (filterCallback_enhanced rt filters selectedTimeRange) logs"




subsection \<open>Example criteria\<close>

text \<open>Criteria objects of the examples: the initial state of \<^verbatim>\<open>filters\<close>, the empty
  object, and the state after the method chip was closed.\<close>

definition initial_filters :: filters where
  "initial_filters =
     \<lparr>flt_search = Some [], flt_method = Some ''all'', flt_status = Some ''all'',
      flt_timeRange = Some ''1h''\<rparr>"

definition empty_filters :: filters where
  "empty_filters =
     \<lparr>flt_search = None, flt_method = None, flt_status = None, flt_timeRange = None\<rparr>"

definition method_removed_filters :: filters where
  "method_removed_filters =
     \<lparr>flt_search = Some [], flt_method = None, flt_status = Some ''all'',
      flt_timeRange = Some ''1h''\<rparr>"

text \<open>A record whose timestamp is not a date.\<close>

definition undated_logs :: "log_entry list" where
  "undated_logs = [mk_log ''not a date'' ''GET'' ''/api/users'' 200 100 True]"

text \<open>Three latencies whose sum exceeds \<open>2 ^ 51\<close>.\<close>

definition large_latency_logs :: "log_entry list" where
  "large_latency_logs =
     [mk_log ''2024-01-01T10:00:00.000Z'' ''GET'' ''/api/users'' 200 2251799813685248 True,
      mk_log ''2024-01-01T10:30:00.000Z'' ''GET'' ''/api/users'' 200 2251799813685248 True,
      mk_log ''2024-01-01T11:00:00.000Z'' ''GET'' ''/api/users'' 200 2251799813685249 True]"

section \<open>Theorems\<close>

subsection \<open>Rounding to a double\<close>

lemma round_half_even_nearest:
  "\<bar>of_int (round_half_even y) - y\<bar> \<le> \<bar>of_int z - y\<bar>"
proof -
  define f where "f = \<lfloor>y\<rfloor>"
  have f: "of_int f \<le> y" "y < of_int f + 1"
    unfolding f_def by linarith+
  have r: "round_half_even y = (if y - of_int f < 1 / 2 then f
      else if 1 / 2 < y - of_int f then f + 1 else if even f then f else f + 1)"
    by (simp add: round_half_even_def Let_def f_def)
  have near: "\<bar>of_int (round_half_even y) - y\<bar> \<le> y - of_int f"
    "\<bar>of_int (round_half_even y) - y\<bar> \<le> of_int f + 1 - y"
    using f by (auto simp: r)
  have "z \<le> f \<or> f + 1 \<le> z" by linarith
  then show ?thesis
  proof
    assume "z \<le> f"
    then have "(of_int z :: rat) \<le> of_int f" by simp
    with f near(1) show ?thesis by linarith
  next
    assume "f + 1 \<le> z"
    then have "(of_int (f + 1) :: rat) \<le> of_int z" by (simp only: of_int_le_iff)
    then have "(of_int f :: rat) + 1 \<le> of_int z" by simp
    with f near(2) show ?thesis by linarith
  qed
qed

lemma binade_bounds:
  assumes "x \<noteq> 0"
  shows "2 powi binade x \<le> \<bar>x\<bar>" and "\<bar>x\<bar> < 2 powi (binade x + 1)"
proof -
  obtain p q where pq: "quotient_of \<bar>x\<bar> = (p, q)"
    by (cases "quotient_of \<bar>x\<bar>")
  then have q: "0 < q" and x: "\<bar>x\<bar> = of_int p / of_int q"
    by (auto dest: quotient_of_denom_pos quotient_of_div)
  have p: "0 < p"
  proof -
    from assms have "(0::rat) < of_int p / of_int q"
      by (simp add: x [symmetric])
    with q show ?thesis
      by (simp add: zero_less_divide_iff)
  qed
  define d where "d = bitlen p - bitlen q"
  have b: "binade x = (if 2 powi d \<le> \<bar>x\<bar> then d else d - 1)"
    by (simp add: binade_def pq Let_def d_def)
  have bp: "2 ^ nat (bitlen p - 1) \<le> p" "p < 2 ^ nat (bitlen p)"
    using bitlen_bounds [OF p] by auto
  have bq: "2 ^ nat (bitlen q - 1) \<le> q" "q < 2 ^ nat (bitlen q)"
    using bitlen_bounds [OF q] by auto
  have lp: "1 \<le> bitlen p" and lq: "1 \<le> bitlen q"
    using p q bitlen_eq_zero_iff [of p] bitlen_eq_zero_iff [of q] bitlen_nonneg [of p]
      bitlen_nonneg [of q] by linarith+
  have P1: "(2::rat) powi (bitlen p - 1) \<le> of_int p"
  proof -
    have "(of_int (2 ^ nat (bitlen p - 1)) :: rat) \<le> of_int p"
      using bp(1) by (simp only: of_int_le_iff)
    then show ?thesis using lp by (simp add: power_int_def)
  qed
  have P2: "of_int p < (2::rat) powi (bitlen p)"
  proof -
    have "(of_int p :: rat) < of_int (2 ^ nat (bitlen p))"
      using bp(2) by (simp only: of_int_less_iff)
    then show ?thesis using lp by (simp add: power_int_def)
  qed
  have Q1: "(2::rat) powi (bitlen q - 1) \<le> of_int q"
  proof -
    have "(of_int (2 ^ nat (bitlen q - 1)) :: rat) \<le> of_int q"
      using bq(1) by (simp only: of_int_le_iff)
    then show ?thesis using lq by (simp add: power_int_def)
  qed
  have Q2: "of_int q < (2::rat) powi (bitlen q)"
  proof -
    have "(of_int q :: rat) < of_int (2 ^ nat (bitlen q))"
      using bq(2) by (simp only: of_int_less_iff)
    then show ?thesis using lq by (simp add: power_int_def)
  qed
  have qpos: "(0::rat) < of_int q" using q by simp
  have lower: "2 powi (d - 1) \<le> \<bar>x\<bar>"
  proof -
    have "(2::rat) powi (d - 1) * of_int q \<le> 2 powi (d - 1) * 2 powi (bitlen q)"
      using Q2 by (intro mult_left_mono) (simp_all add: less_imp_le)
    also have "\<dots> = 2 powi (bitlen p - 1)"
      by (simp add: d_def power_int_add [symmetric])
    also have "\<dots> \<le> of_int p" by (rule P1)
    finally show ?thesis
      using qpos by (simp add: x pos_le_divide_eq)
  qed
  have upper: "\<bar>x\<bar> < 2 powi (d + 1)"
  proof -
    have "of_int p < (2::rat) powi (bitlen p)" by (rule P2)
    also have "\<dots> = 2 powi (d + 1) * 2 powi (bitlen q - 1)"
      by (simp add: d_def power_int_add [symmetric])
    also have "\<dots> \<le> 2 powi (d + 1) * of_int q"
      using Q1 by (intro mult_left_mono) simp_all
    finally show ?thesis
      using qpos by (simp add: x pos_divide_less_eq)
  qed
  show "2 powi binade x \<le> \<bar>x\<bar>"
    using lower by (simp add: b)
  show "\<bar>x\<bar> < 2 powi (binade x + 1)"
    using upper by (auto simp: b not_le)
qed


lemma binary64_round_nearest:
  assumes m: "\<bar>m\<bar> \<le> 2 ^ 53" and j: "j \<le> 1074"
  shows "\<bar>binary64_round x - x\<bar> \<le> \<bar>of_int m / 2 ^ j - x\<bar>"
proof (cases "x = 0")
  case True
  then show ?thesis by (simp add: binary64_round_def)
next
  case False
  define E where "E = max (binade x) (- 1022)"
  define u :: rat where "u = 2 powi (E - 52)"
  define y where "y = x / u"
  define w where "w = of_int m / 2 ^ j / u"
  define e' where "e' = - int j - (E - 52)"
  have u: "0 < u" by (simp add: u_def)
  have fl: "binary64_round x = of_int (round_half_even y) * u"
    using False by (simp add: binary64_round_def Let_def E_def u_def y_def)
  have x: "x = y * u" and r: "of_int m / 2 ^ j = w * u"
    using u by (simp_all add: y_def w_def)
  have w: "w = of_int m * 2 powi e'"
  proof -
    have "w = of_int m * (inverse (2 powi int j) * inverse (2 powi (E - 52)))"
      by (simp add: w_def u_def divide_inverse mult.assoc)
    also have "inverse ((2::rat) powi int j) * inverse (2 powi (E - 52)) =
        2 powi (- int j) * 2 powi (- (E - 52))"
      by (simp only: power_int_minus)
    also have "\<dots> = 2 powi (- int j + - (E - 52))"
      by (rule power_int_add [symmetric]) simp
    also have "- int j + - (E - 52) = e'"
      by (simp add: e'_def)
    finally show ?thesis .
  qed
  have near: "\<bar>of_int (round_half_even y) - y\<bar> \<le> \<bar>w - y\<bar>"
  proof (cases "0 \<le> e'")
    case True
    then have "w = of_int (m * 2 ^ nat e')"
      by (simp add: w power_int_def)
    then show ?thesis
      by (simp only: round_half_even_nearest)
  next
    case neg: False
    then have "- 1022 < E" using j by (simp add: e'_def)
    then have E: "E = binade x" by (simp add: E_def max_def split: if_splits)
    have "(2::rat) powi 52 = 2 powi E * 2 powi (52 - E)"
      by (simp add: power_int_add [symmetric])
    also have "\<dots> \<le> \<bar>x\<bar> * 2 powi (52 - E)"
      using binade_bounds(1) [OF False] by (intro mult_right_mono) (simp_all add: E)
    also have "\<dots> = \<bar>y\<bar>"
      by (simp add: y_def u_def abs_divide power_int_diff field_simps)
    finally have y52: "2 ^ 52 \<le> \<bar>y\<bar>" by simp
    have "(2::rat) powi e' \<le> 2 powi (- 1)"
      using neg by (intro power_int_increasing) simp_all
    then have p: "(2::rat) powi e' \<le> 1 / 2" by (simp add: power_int_minus)
    have "\<bar>w\<bar> = of_int \<bar>m\<bar> * 2 powi e'"
      by (simp add: w abs_mult)
    also have "\<dots> \<le> of_int (2 ^ 53) * (1 / 2)"
      using m p by (intro mult_mono) (simp_all only: of_int_le_iff, simp_all)
    finally have w52: "\<bar>w\<bar> \<le> 2 ^ 52" by simp
    show ?thesis
    proof (cases "0 \<le> y")
      case True
      have "\<bar>of_int (round_half_even y) - y\<bar> \<le> \<bar>of_int (2 ^ 52) - y\<bar>"
        by (rule round_half_even_nearest)
      with True y52 w52 show ?thesis by simp
    next
      case False
      have "\<bar>of_int (round_half_even y) - y\<bar> \<le> \<bar>of_int (- (2 ^ 52)) - y\<bar>"
        by (rule round_half_even_nearest)
      with False y52 w52 show ?thesis by simp
    qed
  qed
  have scale: "\<bar>a * u - b * u\<bar> = \<bar>a - b\<bar> * u" for a b :: rat
    using u by (simp add: left_diff_distrib [symmetric] abs_mult)
  have "\<bar>binary64_round x - x\<bar> = \<bar>of_int (round_half_even y) * u - y * u\<bar>"
    by (simp only: fl x [symmetric])
  also have "\<dots> = \<bar>of_int (round_half_even y) - y\<bar> * u"
    by (rule scale)
  also have "\<dots> \<le> \<bar>w - y\<bar> * u"
    using near u by (intro mult_right_mono) simp_all
  also have "\<dots> = \<bar>w * u - y * u\<bar>"
    by (rule scale [symmetric])
  also have "\<dots> = \<bar>of_int m / 2 ^ j - x\<bar>"
    by (simp only: r x [symmetric])
  finally show ?thesis .
qed

lemma binary64_rounds_to_nearest: "rounds_to_nearest binary64_round"
  by (simp add: rounds_to_nearest_def binary64_round_nearest)


lemma rounds_to_nearestD:
  "rounds_to_nearest fl \<Longrightarrow> \<bar>x\<bar> \<le> 2 ^ 53 \<Longrightarrow> \<bar>m\<bar> \<le> 2 ^ 53 \<Longrightarrow> j \<le> 1074 \<Longrightarrow>
     \<bar>fl x - x\<bar> \<le> \<bar>of_int m / 2 ^ j - x\<bar>"
  unfolding rounds_to_nearest_def by blast

lemma nearest_int_exact:
  assumes "rounds_to_nearest fl" and "\<bar>k\<bar> \<le> 2 ^ 53"
  shows "fl (of_int k) = of_int k"
proof -
  have "\<bar>(of_int k :: rat)\<bar> \<le> 2 ^ 53"
  proof -
    have "(of_int \<bar>k\<bar> :: rat) \<le> of_int (2 ^ 53)"
      using assms(2) by (simp only: of_int_le_iff)
    then show ?thesis by simp
  qed
  then have "\<bar>fl (of_int k) - of_int k\<bar> \<le> \<bar>of_int k / 2 ^ 0 - of_int k\<bar>"
    using assms by (intro rounds_to_nearestD) simp_all
  then show ?thesis by simp
qed

lemma nearest_round_quotient:
  assumes fl: "rounds_to_nearest fl"
    and s: "0 \<le> s" "s \<le> 2 ^ 51" and n: "0 < n" "n < 2 ^ 32"
  shows "\<lfloor>fl (of_int s / of_nat n) + 1 / 2\<rfloor> = \<lfloor>of_int s / of_nat n + 1 / 2 :: rat\<rfloor>"
proof -
  define x :: rat where "x = of_int s / of_nat n"
  define k where "k = \<lfloor>x + 1 / 2\<rfloor>"
  have npos: "(0::rat) < of_nat n" using n by simp
  have n1: "(1::rat) \<le> of_nat n" using n by simp
  have sr: "(0::rat) \<le> of_int s" "(of_int s :: rat) \<le> 2 ^ 51"
  proof -
    show "(0::rat) \<le> of_int s" using s by simp
    have "(of_int s :: rat) \<le> of_int (2 ^ 51)" using s by (simp only: of_int_le_iff)
    then show "(of_int s :: rat) \<le> 2 ^ 51" by simp
  qed
  have x0: "0 \<le> x" using sr npos by (simp add: x_def)
  have xs: "x \<le> of_int s"
  proof -
    have "of_int s \<le> of_int s * (of_nat n :: rat)"
      using sr n1 by (simp add: mult_le_cancel_left1)
    then show ?thesis using npos by (simp add: x_def pos_divide_le_eq)
  qed
  have x51: "x \<le> 2 ^ 51" using xs sr by linarith
  then have xabs: "\<bar>x\<bar> \<le> 2 ^ 53" using x0 by simp
  have k1: "of_int k \<le> x + 1 / 2" and k2: "x + 1 / 2 < of_int k + 1"
    unfolding k_def by linarith+
  have k0: "0 \<le> k" using x0 by (simp add: k_def)
  have kr: "(of_int k :: rat) \<le> 2 ^ 51 + 1 / 2" using k1 x51 by linarith
  have k51: "k \<le> 2 ^ 51"
  proof -
    have "(of_int k :: rat) < of_int (2 ^ 51 + 1)" using kr by simp
    then have "k < 2 ^ 51 + 1" by (simp only: of_int_less_iff)
    then show ?thesis by simp
  qed
  \<comment> \<open>the half-integer below is a double, so the rounded quotient is not below it\<close>
  have lower: "of_int k - 1 / 2 \<le> fl x"
  proof -
    have "\<bar>2 * k - 1\<bar> \<le> 2 ^ 53" using k0 k51 by simp
    then have "\<bar>fl x - x\<bar> \<le> \<bar>of_int (2 * k - 1) / 2 ^ 1 - x\<bar>"
      using fl xabs by (intro rounds_to_nearestD) simp_all
    moreover have "of_int (2 * k - 1) / 2 ^ 1 = (of_int k :: rat) - 1 / 2"
      by (simp add: field_simps)
    ultimately have "\<bar>fl x - x\<bar> \<le> \<bar>of_int k - 1 / 2 - x\<bar>" by (simp only:)
    with k1 show ?thesis by linarith
  qed
  \<comment> \<open>the quotient is at least \<open>1 / (2 n)\<close> below the half-integer above\<close>
  have gap: "1 / (2 * of_nat n) \<le> of_int k + 1 / 2 - x"
  proof -
    have "of_int s * 2 < (2 * of_int k + 1) * (of_nat n :: rat)"
      using k2 npos by (simp add: x_def pos_divide_less_eq field_simps)
    then have "(of_int (s * 2) :: rat) < of_int ((2 * k + 1) * int n)"
      by simp
    then have "s * 2 < (2 * k + 1) * int n"
      by (simp only: of_int_less_iff)
    then have "s * 2 + 1 \<le> (2 * k + 1) * int n" by simp
    then have "(of_int (s * 2 + 1) :: rat) \<le> of_int ((2 * k + 1) * int n)"
      by (simp only: of_int_le_iff)
    then have "of_int s * 2 + 1 \<le> (2 * of_int k + 1) * (of_nat n :: rat)"
      by simp
    then show ?thesis
      using npos by (simp add: x_def field_simps)
  qed
  \<comment> \<open>a double within \<open>1 / (2 n)\<close> of the quotient\<close>
  obtain i where i: "2 ^ i \<le> 2 * n" "2 * n < 2 ^ (i + 1)"
    using ex_power_ivl1 [of 2 "2 * n"] n by auto
  define j where "j = i + 1"
  have j2n: "2 * n < 2 ^ j" and j4n: "2 ^ j \<le> 4 * n"
    using i by (simp_all add: j_def)
  have i33: "(2::nat) ^ i < 2 ^ 33" using i(1) n(2) by simp
  have "i < 33"
  proof (rule ccontr)
    assume "\<not> i < 33"
    then have "33 \<le> i" by simp
    then have "(2::nat) ^ 33 \<le> 2 ^ i" by (rule power_increasing) simp
    with i33 show False by simp
  qed
  then have j1074: "j \<le> 1074" by (simp add: j_def)
  have j2n': "2 * of_nat n < (2::rat) ^ j"
  proof -
    have "(of_nat (2 * n) :: rat) < of_nat (2 ^ j)" using j2n by (simp only: of_nat_less_iff)
    then show ?thesis by simp
  qed
  have j4n': "(2::rat) ^ j \<le> 4 * of_nat n"
  proof -
    have "(of_nat (2 ^ j) :: rat) \<le> of_nat (4 * n)" using j4n by (simp only: of_nat_le_iff)
    then show ?thesis by simp
  qed
  define m where "m = \<lfloor>x * 2 ^ j\<rfloor>"
  have m1: "of_int m \<le> x * 2 ^ j" and m2: "x * 2 ^ j < of_int m + 1"
    unfolding m_def by linarith+
  have m0: "0 \<le> m" using x0 by (simp add: m_def)
  have "x * 2 ^ j \<le> x * (4 * of_nat n)"
    using j4n' x0 by (intro mult_left_mono) simp_all
  also have "\<dots> = 4 * of_int s"
    using npos by (simp add: x_def)
  also have "\<dots> \<le> 2 ^ 53" using sr by simp
  finally have "(of_int m :: rat) \<le> of_int (2 ^ 53)" using m1 by simp
  then have "m \<le> 2 ^ 53" by (simp only: of_int_le_iff)
  with m0 have mabs: "\<bar>m\<bar> \<le> 2 ^ 53" by simp
  have jpos: "(0::rat) < 2 ^ j" by simp
  have r1: "of_int m / 2 ^ j \<le> x"
    using m1 jpos by (simp add: pos_divide_le_eq)
  have r2: "x - of_int m / 2 ^ j < 1 / 2 ^ j"
  proof -
    have "x * 2 ^ j - of_int m < 1" using m2 by simp
    then have "(x - of_int m / 2 ^ j) * 2 ^ j < 1"
      by (simp add: left_diff_distrib)
    then show ?thesis using jpos by (simp add: pos_less_divide_eq)
  qed
  have r3: "1 / (2::rat) ^ j < 1 / (2 * of_nat n)"
    using j2n' npos by (simp add: frac_less2)
  have "\<bar>fl x - x\<bar> \<le> \<bar>of_int m / 2 ^ j - x\<bar>"
    using fl xabs mabs j1074 by (rule rounds_to_nearestD)
  with r1 r2 r3 gap have upper: "fl x < of_int k + 1 / 2" by linarith
  have "\<lfloor>fl x + 1 / 2\<rfloor> = k"
    using lower upper by (simp add: floor_eq_iff)
  then show ?thesis by (simp add: k_def x_def)
qed

lemma example_rounds_to_nearest: "rounds_to_nearest (Number_value example_runtime)"
  by (simp add: example_runtime_def binary64_rounds_to_nearest)

subsection \<open>Summary metrics\<close>

lemma fold_sum_exact:
  assumes "rounds_to_nearest fl"
  shows "\<forall>x \<in> set xs. 0 \<le> x \<Longrightarrow> 0 \<le> a \<Longrightarrow> a + sum_list xs \<le> 2 ^ 53 \<Longrightarrow>
     fold (\<lambda>b acc. fl (acc + of_int b)) xs (of_int a) = of_int (a + sum_list xs)"
proof (induction xs arbitrary: a)
  case Nil
  show ?case by simp
next
  case (Cons x xs)
  from Cons.prems have x: "0 \<le> x" and xs: "\<forall>y \<in> set xs. 0 \<le> y"
    by simp_all
  from xs have "0 \<le> sum_list xs"
    by (simp add: sum_list_nonneg)
  with Cons.prems x have "\<bar>a + x\<bar> \<le> 2 ^ 53"
    by simp
  with assms have "fl (of_int (a + x)) = of_int (a + x)"
    by (rule nearest_int_exact)
  then have "fold (\<lambda>b acc. fl (acc + of_int b)) (x # xs) (of_int a) =
        fold (\<lambda>b acc. fl (acc + of_int b)) xs (of_int (a + x))"
    by simp
  also have "\<dots> = of_int (a + x + sum_list xs)"
    using Cons.prems x xs by (intro Cons.IH) simp_all
  finally show ?case
    by (simp add: add.assoc)
qed

lemma metrics_failedRequests:
  "failedRequests (calculateMetrics rt S) = length (filter (\<lambda>r. 400 \<le> log_status r) S)"
  by (simp add: calculateMetrics_def Let_def)

lemma metrics_avgLatency:
  assumes fl: "rounds_to_nearest (Number_value rt)"
    and S: "S \<noteq> []" "length S < 2 ^ 32"
    and lat: "\<forall>lg \<in> set S. 0 \<le> log_latency lg" "sum_list (map log_latency S) \<le> 2 ^ 51"
  shows "avgLatency (calculateMetrics rt S) = Math_round (spec_averageLatencyMs S)"
proof -
  have "fold (\<lambda>b a. Number_value rt (a + of_int b)) (map log_latency S) (of_int 0) =
        of_int (0 + sum_list (map log_latency S))"
    using lat by (intro fold_sum_exact [OF fl]) simp_all
  then have sum: "fold (\<lambda>b a. Number_value rt (a + of_int b)) (map log_latency S) 0 =
        of_int (sum_list (map log_latency S))"
    by simp
  have "0 \<le> sum_list (map log_latency S)"
    using lat(1) by (intro sum_list_nonneg) auto
  then have "\<lfloor>Number_value rt (of_int (sum_list (map log_latency S)) / of_nat (length S)) + 1 / 2\<rfloor> =
        \<lfloor>of_int (sum_list (map log_latency S)) / of_nat (length S) + 1 / 2 :: rat\<rfloor>"
    using lat(2) S by (intro nearest_round_quotient [OF fl]) simp_all
  then show ?thesis
    using S(1) by (simp add: calculateMetrics_def Let_def sum Math_round_def spec_averageLatencyMs_def)
qed

lemma Math_round_nearest: "x - 1 / 2 < of_int (Math_round x) \<and> of_int (Math_round x) \<le> x + 1 / 2"
proof -
  have "of_int \<lfloor>x + 1 / 2\<rfloor> \<le> x + 1 / 2"
    by (rule of_int_floor_le)
  moreover have "x + 1 / 2 < of_int \<lfloor>x + 1 / 2\<rfloor> + 1"
    by linarith
  ultimately show ?thesis
    by (simp add: Math_round_def)
qed

lemma example_mean: "spec_averageLatencyMs example_logs = 550 / 3"
  by (simp add: spec_averageLatencyMs_def example_logs_def mk_log_def)

lemma example_latencies:
  "example_logs \<noteq> []" "length example_logs < 2 ^ 32"
  "\<forall>lg \<in> set example_logs. 0 \<le> log_latency lg"
  "sum_list (map log_latency example_logs) \<le> 2 ^ 51"
  by (simp_all add: example_logs_def mk_log_def)

lemma example_avgLatency: "avgLatency (calculateMetrics example_runtime example_logs) = 183"
  using metrics_avgLatency [OF example_rounds_to_nearest example_latencies]
  by (simp add: example_mean Math_round_def floor_eq_iff)

lemma example_metrics:
  "calculateMetrics example_runtime example_logs =
     \<lparr>totalRequests = 3, failedRequests = 2, avgLatency = 183, uniqueIPs = 1,
      successRate = 2345624805922133 / 70368744177664, peakLatency = 400\<rparr>"
  by code_simp

text \<open>
  The model reproduces the rounding of the code: the success rate of the example is the
  double that prints as 33.33333333333333, and three latencies near \<open>2 ^ 51\<close> average to
  \<open>2 ^ 51 + 1\<close>, two thirds above their mean.
\<close>

lemma large_latencies_avgLatency:
  "avgLatency (calculateMetrics example_runtime large_latency_logs) = 2251799813685249"
  by code_simp

text \<open>
  C1, as the specification states it: \<open>failedRequests\<close> is the number of records whose
  stored \<open>success\<close> flag is false, also when the flag disagrees with the status code.
  The code counts by \<^verbatim>\<open>log.status >= 400\<close> and never reads the flag: a record with
  status 200 and \<open>success = false\<close> is a failure for the specification and none for the
  code.
\<close>

theorem C1_flag_count_counterexample:
  "failedRequests (calculateMetrics example_runtime flagged_logs) = 0 \<and>
   spec_failedRequests flagged_logs = 1"
  by (simp add: metrics_failedRequests spec_failedRequests_def flagged_logs_def mk_log_def)

text \<open>
  C1, amended: \<open>failedRequests\<close> is the number of records with status code at least 400;
  it is the number of records with \<open>success = false\<close> whenever every record's flag agrees
  with its status code (\<open>success\<close> exactly when the status is below 400).
\<close>

theorem C1_failedRequests_by_status:
  "failedRequests (calculateMetrics rt S) = length (filter (\<lambda>r. 400 \<le> log_status r) S) \<and>
   ((\<forall>r \<in> set S. log_success r = (log_status r < 400)) \<longrightarrow>
      failedRequests (calculateMetrics rt S) = spec_failedRequests S)"
proof -
  have "(\<forall>r \<in> set S. log_success r = (log_status r < 400)) \<Longrightarrow>
        filter (\<lambda>r. 400 \<le> log_status r) S = filter (\<lambda>r. log_success r = False) S"
    by (rule filter_cong) auto
  then show ?thesis
    by (auto simp: metrics_failedRequests spec_failedRequests_def)
qed

theorem C1_failedRequests_by_status_witness:
  "list_all (\<lambda>r. log_success r = (log_status r < 400)) example_logs \<and>
   failedRequests (calculateMetrics example_runtime example_logs) = 2 \<and>
   spec_failedRequests example_logs = 2"
proof -
  have h: "\<forall>r \<in> set example_logs. log_success r = (log_status r < 400)"
    by (simp add: example_logs_def mk_log_def)
  have "spec_failedRequests example_logs = 2"
    by (simp add: spec_failedRequests_def example_logs_def mk_log_def)
  with h C1_failedRequests_by_status [of example_runtime example_logs] show ?thesis
    by (simp add: list_all_iff)
qed

text \<open>
  C2, as the specification states it: \<open>averageLatencyMs\<close> is the unrounded mean, 183.33...
  for the latencies 100, 400 and 50. The code passes the mean through \<^verbatim>\<open>Math.round\<close>
  and returns 183.
\<close>

theorem C2_unrounded_mean_counterexample:
  "avgLatency (calculateMetrics example_runtime example_logs) = 183 \<and>
   spec_averageLatencyMs example_logs = 550 / 3 \<and>
   of_int (avgLatency (calculateMetrics example_runtime example_logs)) \<noteq>
     spec_averageLatencyMs example_logs"
  by (simp add: example_avgLatency example_mean)

text \<open>
  C2, amended: for a non-empty record set whose latencies are non-negative integers with
  a sum of at most \<open>2 ^ 51\<close> (and fewer than \<open>2 ^ 32\<close> records, the bound of an array),
  on a runtime that rounds to the nearest double, \<open>avgLatency\<close> is the arithmetic mean of
  the latencies rounded to the nearest integer, a tie going up: it lies within one half
  of the exact mean. The sum is then computed exactly and the rounding of the quotient
  does not cross a half.
\<close>

theorem C2_avgLatency_rounded_mean:
  "rounds_to_nearest (Number_value rt) \<Longrightarrow> S \<noteq> [] \<Longrightarrow> length S < 2 ^ 32 \<Longrightarrow>
   \<forall>lg \<in> set S. 0 \<le> log_latency lg \<Longrightarrow> sum_list (map log_latency S) \<le> 2 ^ 51 \<Longrightarrow>
     spec_averageLatencyMs S - 1 / 2 < of_int (avgLatency (calculateMetrics rt S)) \<and>
     of_int (avgLatency (calculateMetrics rt S)) \<le> spec_averageLatencyMs S + 1 / 2"
  using metrics_avgLatency [of rt S] Math_round_nearest [of "spec_averageLatencyMs S"]
  by simp

theorem C2_avgLatency_rounded_mean_witness:
  "rounds_to_nearest (Number_value example_runtime) \<and>
   example_logs \<noteq> [] \<and> length example_logs < 2 ^ 32 \<and>
   list_all (\<lambda>lg. 0 \<le> log_latency lg) example_logs \<and>
   sum_list (map log_latency example_logs) \<le> 2 ^ 51 \<and>
   spec_averageLatencyMs example_logs - 1 / 2 <
     of_int (avgLatency (calculateMetrics example_runtime example_logs)) \<and>
   of_int (avgLatency (calculateMetrics example_runtime example_logs)) \<le>
     spec_averageLatencyMs example_logs + 1 / 2"
  using C2_avgLatency_rounded_mean [OF example_rounds_to_nearest example_latencies]
    example_rounds_to_nearest example_latencies
  by (simp add: list_all_iff)

text \<open>
  C3: on the empty record set \<open>calculateMetrics\<close> returns the summary with every field
  zero. Both quotients are guarded by a test of the length, so no division by zero is
  evaluated, and the function has no failing branch.
\<close>

theorem C3_empty_summary:
  "calculateMetrics rt [] =
     \<lparr>totalRequests = 0, failedRequests = 0, avgLatency = 0, uniqueIPs = 0,
      successRate = 0, peakLatency = 0\<rparr>"
  by (simp add: calculateMetrics_def)

subsection \<open>Hourly series\<close>


lemma getHours_less_24: "getHours rt s = Some h \<Longrightarrow> h < 24"
  by (auto simp: getHours_def HourFromTime_def split: option.splits)

lemma parse_timeKey_all:
  "\<forall>h \<in> set [0..<24]. parseInt (split_first CHR '':'' (timeKeyOf (Some h))) = Some (int h)"
  by code_simp

lemma parse_timeKey:
  "h < 24 \<Longrightarrow> parseInt (split_first CHR '':'' (timeKeyOf (Some h))) = Some (int h)"
  using parse_timeKey_all by simp

lemma parse_timeKey_NaN: "parseInt (split_first CHR '':'' (timeKeyOf None)) = None"
  by code_simp

lemma timeKey_eq_iff:
  assumes "i < 24" and "hr = None \<or> (\<exists>h < 24. hr = Some h)"
  shows "(timeKeyOf hr = timeKeyOf (Some i)) = (hr = Some i)"
proof
  assume eq: "timeKeyOf hr = timeKeyOf (Some i)"
  then have p: "parseInt (split_first CHR '':'' (timeKeyOf hr)) = Some (int i)"
    using parse_timeKey [OF assms(1)] by simp
  from assms(2) show "hr = Some i"
  proof
    assume "hr = None"
    with p show ?thesis by (simp add: parse_timeKey_NaN)
  next
    assume "\<exists>h < 24. hr = Some h"
    then obtain h where "h < 24" "hr = Some h" by blast
    with p parse_timeKey [of h] show ?thesis by simp
  qed
next
  assume "hr = Some i"
  then show "timeKeyOf hr = timeKeyOf (Some i)" by simp
qed

lemma getHours_range: "getHours rt s = None \<or> (\<exists>h < 24. getHours rt s = Some h)"
  using getHours_less_24 [of rt s] by (cases "getHours rt s") auto


lemma groupLog_other:
  "k \<noteq> timeKeyOf (getHours rt (log_timestamp lg)) \<Longrightarrow> groupLog rt lg m k = m k"
  by (simp add: groupLog_def Let_def)

lemma graphPoint_miss:
  assumes "i < 24" and "getHours rt (log_timestamp lg) \<noteq> Some i"
  shows "graphPoint (groupLog rt lg m) i = graphPoint m i"
proof -
  have "timeKeyOf (Some i) \<noteq> timeKeyOf (getHours rt (log_timestamp lg))"
    using timeKey_eq_iff [OF assms(1) getHours_range, of rt "log_timestamp lg"] assms(2)
    by auto
  then have "groupLog rt lg m (timeKeyOf (Some i)) = m (timeKeyOf (Some i))"
    by (rule groupLog_other)
  then show ?thesis
    by (simp add: graphPoint_def)
qed

lemma graphPoint_hit:
  assumes "getHours rt (log_timestamp lg) = Some i"
  shows "requests (graphPoint (groupLog rt lg m) i) = requests (graphPoint m i) + 1"
    and "errors (graphPoint (groupLog rt lg m) i) =
           errors (graphPoint m i) + (if log_status lg \<ge> 400 then 1 else 0)"
    and "success (graphPoint (groupLog rt lg m) i) =
           success (graphPoint m i) + (if log_status lg \<ge> 400 then 0 else 1)"
  using assms
  by (cases "m (timeKeyOf (Some i))"; simp add: graphPoint_def groupLog_def Let_def)+


lemma graphPoint_empty:
  "requests (graphPoint Map.empty i) = 0"
  "errors (graphPoint Map.empty i) = 0"
  "success (graphPoint Map.empty i) = 0"
  by (simp_all add: graphPoint_def)

lemma counts_fold:
  assumes "i < 24"
  shows "requests (graphPoint (fold (groupLog rt) logs m) i) =
           requests (graphPoint m i) +
           length (filter (\<lambda>lg. getHours rt (log_timestamp lg) = Some i) logs)"
    and "errors (graphPoint (fold (groupLog rt) logs m) i) =
           errors (graphPoint m i) +
           length (filter (\<lambda>lg. getHours rt (log_timestamp lg) = Some i \<and> log_status lg \<ge> 400) logs)"
    and "success (graphPoint (fold (groupLog rt) logs m) i) =
           success (graphPoint m i) +
           length (filter (\<lambda>lg. getHours rt (log_timestamp lg) = Some i \<and> \<not> log_status lg \<ge> 400) logs)"
proof (induction logs arbitrary: m)
  case Nil
  {
    case 1 show ?case by simp
  next
    case 2 show ?case by simp
  next
    case 3 show ?case by simp
  }
next
  case (Cons lg logs)
  {
    case 1
    show ?case
      using Cons.IH(1) [of "groupLog rt lg m"] graphPoint_hit(1) [of rt lg i m]
        graphPoint_miss [OF assms, of rt lg m]
      by (cases "getHours rt (log_timestamp lg) = Some i") simp_all
  next
    case 2
    show ?case
      using Cons.IH(2) [of "groupLog rt lg m"] graphPoint_hit(2) [of rt lg i m]
        graphPoint_miss [OF assms, of rt lg m]
      by (cases "getHours rt (log_timestamp lg) = Some i") simp_all
  next
    case 3
    show ?case
      using Cons.IH(3) [of "groupLog rt lg m"] graphPoint_hit(3) [of rt lg i m]
        graphPoint_miss [OF assms, of rt lg m]
      by (cases "getHours rt (log_timestamp lg) = Some i") simp_all
  }
qed

lemma graphData_nth:
  "i < 24 \<Longrightarrow> generateGraphData rt S ! i = graphPoint (fold (groupLog rt) S Map.empty) i"
  by (simp add: generateGraphData_def Let_def del: upt_Suc)

lemma graphData_counts:
  assumes "i < 24"
  shows "requests (generateGraphData rt S ! i) =
           length (filter (\<lambda>lg. getHours rt (log_timestamp lg) = Some i) S)"
    and "errors (generateGraphData rt S ! i) =
           length (filter (\<lambda>lg. getHours rt (log_timestamp lg) = Some i \<and> log_status lg \<ge> 400) S)"
    and "success (generateGraphData rt S ! i) =
           length (filter (\<lambda>lg. getHours rt (log_timestamp lg) = Some i \<and> \<not> log_status lg \<ge> 400) S)"
  using assms counts_fold [OF assms, of rt S Map.empty]
  by (simp_all add: graphData_nth graphPoint_empty)

lemma length_filter_split:
  "length (filter P xs) =
     length (filter (\<lambda>x. P x \<and> Q x) xs) + length (filter (\<lambda>x. P x \<and> \<not> Q x) xs)"
  by (induction xs) simp_all

lemma sum_hour_counts:
  "(\<Sum>i = 0..<24. length (filter (\<lambda>lg. getHours rt (log_timestamp lg) = Some i) S)) =
     length (filter (\<lambda>lg. getHours rt (log_timestamp lg) \<noteq> None) S)"
proof (induction S)
  case Nil
  show ?case by simp
next
  case (Cons lg S)
  show ?case
  proof (cases "getHours rt (log_timestamp lg)")
    case None
    have "(\<Sum>i = 0..<24. length (filter (\<lambda>lg. getHours rt (log_timestamp lg) = Some i) (lg # S))) =
          (\<Sum>i = 0..<24. length (filter (\<lambda>lg. getHours rt (log_timestamp lg) = Some i) S))"
      by (rule sum.cong) (simp_all add: None)
    with Cons None show ?thesis
      by simp
  next
    case (Some h)
    then have h24: "h < 24"
      by (rule getHours_less_24)
    have "(\<Sum>i = 0..<24. length (filter (\<lambda>lg. getHours rt (log_timestamp lg) = Some i) (lg # S))) =
          (\<Sum>i = 0..<24. (if i = h then 1 else 0) +
              length (filter (\<lambda>lg. getHours rt (log_timestamp lg) = Some i) S))"
      by (rule sum.cong) (auto simp: Some)
    also have "\<dots> = (\<Sum>i = 0..<24. if i = h then 1 else 0) +
          (\<Sum>i = 0..<24. length (filter (\<lambda>lg. getHours rt (log_timestamp lg) = Some i) S))"
      by (rule sum.distrib)
    also have "(\<Sum>i = 0..<24. if i = h then 1 else 0) = (1::nat)"
      using h24 by (simp add: sum.delta)
    finally show ?thesis
      using Cons Some by simp
  qed
qed

lemma graphData_length: "length (generateGraphData rt S) = 24"
  by (simp add: generateGraphData_def Let_def del: upt_Suc)

lemma timeKey_labels:
  "map (\<lambda>i. timeKeyOf (Some i)) [0..<24] =
     [''00:00'', ''01:00'', ''02:00'', ''03:00'', ''04:00'', ''05:00'',
      ''06:00'', ''07:00'', ''08:00'', ''09:00'', ''10:00'', ''11:00'',
      ''12:00'', ''13:00'', ''14:00'', ''15:00'', ''16:00'', ''17:00'',
      ''18:00'', ''19:00'', ''20:00'', ''21:00'', ''22:00'', ''23:00'']"
  by code_simp

lemma graphData_labels:
  "map time (generateGraphData rt S) = map (\<lambda>i. timeKeyOf (Some i)) [0..<24]"
  by (simp add: generateGraphData_def Let_def graphPoint_def del: upt_Suc)

lemma graphData_sum:
  "sum_list (map requests (generateGraphData rt S)) =
     length (filter (\<lambda>lg. getHours rt (log_timestamp lg) \<noteq> None) S)"
proof -
  have "map requests (generateGraphData rt S) =
        map requests (map (\<lambda>i. generateGraphData rt S ! i) [0..<length (generateGraphData rt S)])"
    by (simp only: map_nth)
  then have "sum_list (map requests (generateGraphData rt S)) =
        (\<Sum>i = 0..<24. requests (generateGraphData rt S ! i))"
    by (simp add: graphData_length interv_sum_list_conv_sum_set_nat comp_def del: upt_Suc)
  also have "\<dots> = (\<Sum>i = 0..<24. length (filter (\<lambda>lg. getHours rt (log_timestamp lg) = Some i) S))"
    by (rule sum.cong) (simp_all add: graphData_counts)
  finally show ?thesis
    by (simp add: sum_hour_counts)
qed

lemma example_graph_10_11:
  "generateGraphData example_runtime example_logs ! 10 =
     \<lparr>requests = 2, errors = 1, success = 1, time = ''10:00''\<rparr> \<and>
   generateGraphData example_runtime example_logs ! 11 =
     \<lparr>requests = 1, errors = 1, success = 0, time = ''11:00''\<rparr>"
  by code_simp

lemma example_valid_timestamps:
  "\<forall>lg \<in> set example_logs. getHours example_runtime (log_timestamp lg) \<noteq> None"
  by code_simp

text \<open>
  C4, as the specification states it: for every record set the request counts of the 24
  points add up to the number of records. A record whose timestamp is not a date has the
  hour \<^verbatim>\<open>NaN\<close>, is filed under the key \<^verbatim>\<open>NaN:00\<close> and is read by none of the 24
  points.
\<close>

theorem C4_undated_record_counterexample:
  "sum_list (map requests (generateGraphData example_runtime undated_logs)) = 0 \<and>
   length undated_logs = 1"
  by code_simp

text \<open>
  C4, amended: \<open>generateGraphData\<close> returns 24 points, labelled \<open>00:00\<close> to \<open>23:00\<close> in
  this order; the point of hour \<open>i\<close> counts the records whose timestamp falls in hour
  \<open>i\<close> (zero when there is none); the counts add up to the number of records whose
  timestamp is a valid date, hence to the number of records when every timestamp is
  valid.
\<close>

theorem C4_hourly_buckets:
  "length (generateGraphData rt S) = 24 \<and>
   map time (generateGraphData rt S) =
     [''00:00'', ''01:00'', ''02:00'', ''03:00'', ''04:00'', ''05:00'',
      ''06:00'', ''07:00'', ''08:00'', ''09:00'', ''10:00'', ''11:00'',
      ''12:00'', ''13:00'', ''14:00'', ''15:00'', ''16:00'', ''17:00'',
      ''18:00'', ''19:00'', ''20:00'', ''21:00'', ''22:00'', ''23:00''] \<and>
   (\<forall>i < 24. requests (generateGraphData rt S ! i) =
      length (filter (\<lambda>lg. getHours rt (log_timestamp lg) = Some i) S)) \<and>
   sum_list (map requests (generateGraphData rt S)) =
     length (filter (\<lambda>lg. getHours rt (log_timestamp lg) \<noteq> None) S) \<and>
   ((\<forall>lg \<in> set S. getHours rt (log_timestamp lg) \<noteq> None) \<longrightarrow>
      sum_list (map requests (generateGraphData rt S)) = length S)"
proof -
  have "(\<forall>lg \<in> set S. getHours rt (log_timestamp lg) \<noteq> None) \<Longrightarrow>
        filter (\<lambda>lg. getHours rt (log_timestamp lg) \<noteq> None) S = S"
    by (simp only: filter_id_conv) 
  then show ?thesis
    using graphData_length [of rt S] graphData_labels [of rt S] timeKey_labels
      graphData_counts(1) [of _ rt S] graphData_sum [of rt S]
    by auto
qed

theorem C4_hourly_buckets_witness:
  "list_all (\<lambda>lg. getHours example_runtime (log_timestamp lg) \<noteq> None) example_logs \<and>
   length (generateGraphData example_runtime example_logs) = 24 \<and>
   sum_list (map requests (generateGraphData example_runtime example_logs)) = 3 \<and>
   requests (generateGraphData example_runtime example_logs ! 10) = 2"
proof -
  have len: "length example_logs = 3"
    by (simp add: example_logs_def)
  have "sum_list (map requests (generateGraphData example_runtime example_logs)) =
        length example_logs"
    using C4_hourly_buckets [of example_runtime example_logs] example_valid_timestamps
    by blast
  then show ?thesis
    using example_valid_timestamps example_graph_10_11 len
    by (simp add: graphData_length list_all_iff)
qed

lemma example_hour_10_counts:
  "length (filter (\<lambda>lg. getHours example_runtime (log_timestamp lg) = Some 10) example_logs) = 2 \<and>
   length (filter (\<lambda>lg. getHours example_runtime (log_timestamp lg) = Some 10 \<and>
                        log_status lg \<ge> 400) example_logs) = 1 \<and>
   length (filter (\<lambda>lg. getHours example_runtime (log_timestamp lg) = Some 10 \<and>
                        log_status lg < 400) example_logs) = 1"
  by code_simp

text \<open>
  C10: the point of hour \<open>i\<close> counts in \<open>requests\<close> the records of hour \<open>i\<close>, in
  \<open>errors\<close> those of them with status at least 400 and in \<open>success\<close> those with status
  below 400; so a record of the hour is counted once in \<open>requests\<close> and once in exactly
  one of the two others, and in every point the success count and the error count add up
  to the request count.
\<close>

theorem C10_bucket_partition:
  "length (generateGraphData rt S) = 24 \<and>
   (\<forall>i < 24.
      requests (generateGraphData rt S ! i) =
        length (filter (\<lambda>lg. getHours rt (log_timestamp lg) = Some i) S) \<and>
      errors (generateGraphData rt S ! i) =
        length (filter (\<lambda>lg. getHours rt (log_timestamp lg) = Some i \<and> log_status lg \<ge> 400) S) \<and>
      success (generateGraphData rt S ! i) =
        length (filter (\<lambda>lg. getHours rt (log_timestamp lg) = Some i \<and> log_status lg < 400) S)) \<and>
   (\<forall>b \<in> set (generateGraphData rt S). success b + errors b = requests b)"
proof (intro conjI allI impI ballI)
  show "length (generateGraphData rt S) = 24"
    by (rule graphData_length)
next
  fix i :: nat
  assume i: "i < 24"
  show "requests (generateGraphData rt S ! i) =
      length (filter (\<lambda>lg. getHours rt (log_timestamp lg) = Some i) S)"
    by (rule graphData_counts(1) [OF i])
  show "errors (generateGraphData rt S ! i) =
      length (filter (\<lambda>lg. getHours rt (log_timestamp lg) = Some i \<and> log_status lg \<ge> 400) S)"
    by (rule graphData_counts(2) [OF i])
  show "success (generateGraphData rt S ! i) =
      length (filter (\<lambda>lg. getHours rt (log_timestamp lg) = Some i \<and> log_status lg < 400) S)"
    by (simp add: graphData_counts(3) [OF i] not_le)
next
  fix b
  assume "b \<in> set (generateGraphData rt S)"
  then obtain i where i: "i < 24" and b: "b = generateGraphData rt S ! i"
    by (auto simp: in_set_conv_nth graphData_length)
  show "success b + errors b = requests b"
    unfolding b graphData_counts [OF i]
    using length_filter_split
      [of "\<lambda>lg. getHours rt (log_timestamp lg) = Some i" S "\<lambda>lg. log_status lg \<ge> 400"]
    by simp
qed

theorem C10_bucket_partition_witness:
  "requests (generateGraphData example_runtime example_logs ! 10) = 2 \<and>
   errors (generateGraphData example_runtime example_logs ! 10) = 1 \<and>
   success (generateGraphData example_runtime example_logs ! 10) = 1"
proof -
  have "(10::nat) < 24" by simp
  with C10_bucket_partition [of example_runtime example_logs]
  have "requests (generateGraphData example_runtime example_logs ! 10) =
        length (filter (\<lambda>lg. getHours example_runtime (log_timestamp lg) = Some 10) example_logs) \<and>
      errors (generateGraphData example_runtime example_logs ! 10) =
        length (filter (\<lambda>lg. getHours example_runtime (log_timestamp lg) = Some 10 \<and>
                             log_status lg \<ge> 400) example_logs) \<and>
      success (generateGraphData example_runtime example_logs ! 10) =
        length (filter (\<lambda>lg. getHours example_runtime (log_timestamp lg) = Some 10 \<and>
                             log_status lg < 400) example_logs)"
    by blast
  with example_hour_10_counts show ?thesis
    by simp
qed

subsection \<open>Filtering\<close>















lemma searchPasses_falsy: "\<not> truthy (flt_search f) \<Longrightarrow> searchPasses rt f lg"
  by (simp add: searchPasses_def)

lemma methodPasses_iff:
  "methodPasses f lg \<longleftrightarrow>
     (case flt_method f of None \<Rightarrow> False | Some m \<Rightarrow> m = ''all'' \<or> log_method lg = m)"
  by (auto simp: methodPasses_def split: option.splits)

lemma statusPasses_all: "flt_status f = Some ''all'' \<Longrightarrow> statusPasses f lg"
  by (simp add: statusPasses_def)

lemma statusPasses_absent: "flt_status f = None \<Longrightarrow> statusPasses f lg"
  by (simp add: statusPasses_def)

lemma timeRangePasses_None: "timeRangePasses rt None lg"
  by (simp add: timeRangePasses_def)

lemma filterCallback_conj:
  "filterCallback rt f tr lg \<longleftrightarrow>
     searchPasses rt f lg \<and> methodPasses f lg \<and> statusPasses f lg \<and> timeRangePasses rt tr lg"
  by (simp add: filterCallback_def)


lemma timeRangePasses_inverted:
  assumes "eh < sh" and "sh < 24"
  shows "timeRangePasses rt (Some \<lparr>startTime = timeKeyOf (Some sh), endTime = timeKeyOf (Some eh)\<rparr>) lg
           \<longleftrightarrow> getHours rt (log_timestamp lg) = None"
proof (cases "getHours rt (log_timestamp lg)")
  case None
  then show ?thesis
    by (simp add: timeRangePasses_def Let_def parse_timeKey_NaN js_less_def js_greater_def
        split: option.splits)
next
  case (Some h)
  then have "h < 24" by (rule getHours_less_24)
  moreover from assms have "eh < 24" by simp
  moreover from assms have "h < sh \<or> eh < h" by arith
  ultimately show ?thesis
    using Some assms(2)
    by (simp add: timeRangePasses_def Let_def parse_timeKey js_less_def js_greater_def)
qed

lemma filteredLogs_inverted:
  assumes "eh < sh" and "sh < 24"
  shows "filteredLogs rt f (Some \<lparr>startTime = timeKeyOf (Some sh), endTime = timeKeyOf (Some eh)\<rparr>) S =
         filter (\<lambda>lg. getHours rt (log_timestamp lg) = None) (filteredLogs rt f None S)"
  unfolding filteredLogs_def filter_filter
  by (rule filter_cong)
    (auto simp: filterCallback_conj timeRangePasses_inverted [OF assms] timeRangePasses_None)

lemma timeKey_05_03: "timeKeyOf (Some 5) = ''05:00'' \<and> timeKeyOf (Some 3) = ''03:00''"
  by code_simp

text \<open>
  C5, as the specification states it: with a time range whose start hour is after its end
  hour the filter returns nothing, for every record set. A record whose timestamp is not
  a date has the hour \<^verbatim>\<open>NaN\<close>; both comparisons with \<^verbatim>\<open>NaN\<close> are false, so the time
  block does not reject it and the record is returned.
\<close>

theorem C5_inverted_range_counterexample:
  "map log_timestamp
     (filteredLogs example_runtime initial_filters
        (Some \<lparr>startTime = ''05:00'', endTime = ''03:00''\<rparr>) undated_logs) = [''not a date'']"
  by code_simp

text \<open>
  C5, amended: with the time range \<open>[startHour, endHour]\<close>, \<open>startHour > endHour\<close>, the
  filter returns no record whose timestamp is a valid date: what it returns are the
  records with an invalid timestamp that pass the other criteria, and the result is empty
  when every timestamp is valid.
\<close>

theorem C5_inverted_range:
  "eh < sh \<Longrightarrow> sh < 24 \<Longrightarrow>
     filteredLogs rt f (Some \<lparr>startTime = timeKeyOf (Some sh), endTime = timeKeyOf (Some eh)\<rparr>) S =
       filter (\<lambda>lg. getHours rt (log_timestamp lg) = None) (filteredLogs rt f None S) \<and>
     ((\<forall>lg \<in> set S. getHours rt (log_timestamp lg) \<noteq> None) \<longrightarrow>
        filteredLogs rt f (Some \<lparr>startTime = timeKeyOf (Some sh), endTime = timeKeyOf (Some eh)\<rparr>) S = [])"
proof (intro conjI impI)
  assume a: "eh < sh" "sh < 24"
  show eq: "filteredLogs rt f (Some \<lparr>startTime = timeKeyOf (Some sh), endTime = timeKeyOf (Some eh)\<rparr>) S =
       filter (\<lambda>lg. getHours rt (log_timestamp lg) = None) (filteredLogs rt f None S)"
    by (rule filteredLogs_inverted [OF a])
  assume "\<forall>lg \<in> set S. getHours rt (log_timestamp lg) \<noteq> None"
  then have "filter (\<lambda>lg. getHours rt (log_timestamp lg) = None) (filteredLogs rt f None S) = []"
    by (auto simp: filter_empty_conv filteredLogs_def)
  with eq show "filteredLogs rt f (Some \<lparr>startTime = timeKeyOf (Some sh), endTime = timeKeyOf (Some eh)\<rparr>) S = []"
    by simp
qed

theorem C5_inverted_range_witness:
  "(3::nat) < 5 \<and> (5::nat) < 24 \<and>
   list_all (\<lambda>lg. getHours example_runtime (log_timestamp lg) \<noteq> None) example_logs \<and>
   filteredLogs example_runtime initial_filters
     (Some \<lparr>startTime = ''05:00'', endTime = ''03:00''\<rparr>) example_logs = []"
proof -
  have a: "(3::nat) < 5" "(5::nat) < 24" by simp_all
  have "filteredLogs example_runtime initial_filters
      (Some \<lparr>startTime = timeKeyOf (Some 5), endTime = timeKeyOf (Some 3)\<rparr>) example_logs = []"
    using C5_inverted_range [OF a, of example_runtime initial_filters example_logs]
      example_valid_timestamps
    by blast
  then show ?thesis
    using example_valid_timestamps timeKey_05_03 by (simp add: list_all_iff)
qed


lemma filteredLogs_sentinels:
  assumes "\<not> truthy (flt_search f)" and "flt_method f = Some ''all''"
    and "flt_status f = Some ''all'' \<or> flt_status f = None"
  shows "filteredLogs rt f None S = S"
proof -
  have "filterCallback rt f None lg" for lg
    using assms
    by (auto simp: filterCallback_conj searchPasses_falsy methodPasses_iff statusPasses_all
        statusPasses_absent timeRangePasses_None)
  then show ?thesis
    by (simp add: filteredLogs_def)
qed

lemma filteredLogs_initial: "filteredLogs rt initial_filters None S = S"
  by (rule filteredLogs_sentinels) (simp_all add: initial_filters_def truthy_def)

lemma filteredLogs_method_absent:
  "flt_method f = None \<Longrightarrow> filteredLogs rt f tr S = []"
  by (simp add: filteredLogs_def filterCallback_conj methodPasses_iff)

text \<open>
  C6: with no criterion set the filter returns the record set as it is. This holds when
  the method criterion is the sentinel \<open>all\<close> (\<open>filteredLogs_sentinels\<close>). When the
  method is absent, as in the object \<^verbatim>\<open>{}\<close> or after the method chip of the filter bar
  was closed, the code evaluates \<^verbatim>\<open>undefined !== 'all' && log.method !== undefined\<close>,
  which is true for every record, and returns the empty list.
\<close>

theorem C6_absent_method_rejects_all:
  "filteredLogs rt empty_filters None S = [] \<and>
   filteredLogs rt method_removed_filters None S = [] \<and>
   filteredLogs example_runtime method_removed_filters None example_logs \<noteq> example_logs"
proof -
  have "flt_method empty_filters = None" and "flt_method method_removed_filters = None"
    by (simp_all add: empty_filters_def method_removed_filters_def)
  then have e: "filteredLogs rt empty_filters None S = []"
      "filteredLogs rt method_removed_filters None S = []" for rt S
    by (simp_all add: filteredLogs_method_absent)
  have "example_logs \<noteq> []"
    by (simp add: example_logs_def)
  with e show ?thesis
    by simp
qed

text \<open>
  C8: what the method criterion alone selects, the other criteria being at their
  sentinels or absent: the records of that method, every record for \<open>all\<close>, and no
  record when the method criterion is absent, where the claim has it select every
  record.
\<close>

theorem C8_method_filter:
  "filteredLogs rt \<lparr>flt_search = Some [], flt_method = mo, flt_status = Some ''all'',
                    flt_timeRange = tr\<rparr> None S =
     (case mo of
        None \<Rightarrow> []
      | Some m \<Rightarrow> if m = ''all'' then S else filter (\<lambda>lg. log_method lg = m) S) \<and>
   filteredLogs rt \<lparr>flt_search = None, flt_method = mo, flt_status = None,
                    flt_timeRange = None\<rparr> None S =
     (case mo of
        None \<Rightarrow> []
      | Some m \<Rightarrow> if m = ''all'' then S else filter (\<lambda>lg. log_method lg = m) S)"
proof (cases mo)
  case None
  then show ?thesis
    by (simp add: filteredLogs_method_absent)
next
  case (Some m)
  have "filterCallback rt \<lparr>flt_search = Some [], flt_method = Some m, flt_status = Some ''all'',
            flt_timeRange = tr\<rparr> None = (\<lambda>lg. m = ''all'' \<or> log_method lg = m)"
    by (rule ext)
      (simp add: filterCallback_conj searchPasses_falsy truthy_def methodPasses_iff
        statusPasses_all timeRangePasses_None)
  moreover have "filterCallback rt \<lparr>flt_search = None, flt_method = Some m, flt_status = None,
            flt_timeRange = None\<rparr> None = (\<lambda>lg. m = ''all'' \<or> log_method lg = m)"
    by (rule ext)
      (simp add: filterCallback_conj searchPasses_falsy truthy_def methodPasses_iff
        statusPasses_absent timeRangePasses_None)
  ultimately show ?thesis
    using Some by (simp add: filteredLogs_def)
qed






end
